theory Spec2Isabelle
  imports Main "HOL-Library.Word" "HOL-Library.Sublist"
begin

section \<open>Python strings\<close>

text \<open>
  A Python \<open>str\<close> is a sequence of Unicode code points; a code point is modelled as a
  natural number, so that \<open>str.strip()\<close> can be given its real (Unicode) whitespace set.
  \<open>str\<close> embeds an ASCII literal.
\<close>

type_synonym pystr = "nat list"

definition str :: "string \<Rightarrow> pystr" where
  "str s = map of_char s"

definition comma :: nat where
  "comma = 44"

text \<open>\<open>str.isspace()\<close> on one code point: the 29 whitespace code points of CPython 3.\<close>

definition isspace :: "nat \<Rightarrow> bool" where
  "isspace c =
     ((9 \<le> c \<and> c \<le> 13) \<or> (28 \<le> c \<and> c \<le> 32) \<or> c = 133 \<or> c = 160 \<or> c = 5760
      \<or> (8192 \<le> c \<and> c \<le> 8202) \<or> c = 8232 \<or> c = 8233 \<or> c = 8239 \<or> c = 8287
      \<or> c = 12288)"

text \<open>\<open>s.strip()\<close>: leading and trailing whitespace removed.\<close>

definition str_strip :: "pystr \<Rightarrow> pystr" where
  "str_strip s = rev (dropWhile isspace (rev (dropWhile isspace s)))"

text \<open>
  \<open>s.split(sep)\<close> for a one-character separator: the text is cut at every occurrence
  of the separator, so \<open>n\<close> separators give \<open>n + 1\<close> parts (possibly empty ones).
  \<open>cur\<close> is the part being collected.
\<close>

fun split_from :: "'a \<Rightarrow> 'a list \<Rightarrow> 'a list \<Rightarrow> 'a list list" where
  "split_from sep cur [] = [cur]"
| "split_from sep cur (c # cs) =
     (if c = sep then cur # split_from sep [] cs else split_from sep (cur @ [c]) cs)"

definition str_split :: "'a \<Rightarrow> 'a list \<Rightarrow> 'a list list" where
  "str_split sep s = split_from sep [] s"

text \<open>
  \<open>s.replace(old, new)\<close>. For a non-empty \<open>old\<close> the text is scanned from the left;
  at a position where \<open>old\<close> starts, \<open>new\<close> is emitted and the scan goes on behind the
  occurrence, otherwise one character is copied. For the empty \<open>old\<close> Python puts
  \<open>new\<close> in front of every character and at the end.
\<close>

fun replace_scan :: "'a list \<Rightarrow> 'a list \<Rightarrow> 'a list \<Rightarrow> 'a list" where
  "replace_scan old new [] = []"
| "replace_scan old new (c # cs) =
     (if take (length old) (c # cs) = old
      then new @ replace_scan old new (drop (length old - 1) cs)
      else c # replace_scan old new cs)"

definition str_replace :: "'a list \<Rightarrow> 'a list \<Rightarrow> 'a list \<Rightarrow> 'a list" where
  "str_replace s old new =
     (if old = [] then new @ concat (map (\<lambda>c. c # new) s) else replace_scan old new s)"

section \<open>The world outside the program\<close>

text \<open>
  Exceptions the operations of \<open>main.py\<close> can raise. All of them are subclasses of
  Python's \<open>Exception\<close>; \<open>FileNotFoundError\<close> is the one the handlers tell apart.
\<close>

datatype exn = FileNotFoundError | PermissionError | IsADirectoryError | LookupError
  | UnicodeDecodeError | UnicodeEncodeError | TypeError

type_synonym bytes = "8 word list"

datatype node = File bytes | Directory

text \<open>
  The file system: what is at a path, and the exception (permissions, a missing parent
  directory, ...) that opening a path for reading or for writing raises, if any.
\<close>

record filesys =
  nodes :: "pystr \<Rightarrow> node option"
  read_fault :: "pystr \<Rightarrow> exn option"
  write_fault :: "pystr \<Rightarrow> exn option"

text \<open>\<open>os.path.exists(path)\<close>\<close>

definition path_exists :: "filesys \<Rightarrow> pystr \<Rightarrow> bool" where
  "path_exists fs path = (case nodes fs path of None \<Rightarrow> False | Some n \<Rightarrow> True)"

text \<open>\<open>open(path, 'r')\<close> or \<open>open(path, 'rb')\<close>: the bytes behind the handle, or the exception.\<close>

definition open_read :: "filesys \<Rightarrow> pystr \<Rightarrow> exn + bytes" where
  "open_read fs path =
     (case nodes fs path of
        None \<Rightarrow> Inl FileNotFoundError
      | Some Directory \<Rightarrow> Inl IsADirectoryError
      | Some (File data) \<Rightarrow>
          (case read_fault fs path of Some e \<Rightarrow> Inl e | None \<Rightarrow> Inr data))"

text \<open>\<open>open(path, 'w')\<close>: the file is created, or truncated if it exists, as soon as it is opened.\<close>

definition open_write :: "filesys \<Rightarrow> pystr \<Rightarrow> exn + filesys" where
  "open_write fs path =
     (case nodes fs path of
        Some Directory \<Rightarrow> Inl IsADirectoryError
      | _ \<Rightarrow>
          (case write_fault fs path of
             Some e \<Rightarrow> Inl e
           | None \<Rightarrow> Inr (fs\<lparr>nodes := (nodes fs)(path := Some (File []))\<rparr>)))"

text \<open>What a handle opened earlier reads now: the current content of the file.\<close>

definition file_bytes :: "filesys \<Rightarrow> pystr \<Rightarrow> bytes" where
  "file_bytes fs path = (case nodes fs path of Some (File data) \<Rightarrow> data | _ \<Rightarrow> [])"

definition write_bytes :: "filesys \<Rightarrow> pystr \<Rightarrow> bytes \<Rightarrow> filesys" where
  "write_bytes fs path data = fs\<lparr>nodes := (nodes fs)(path := Some (File data))\<rparr>"

text \<open>
  The libraries the program calls, as parameters:
  \<^item> \<open>detect\<close>: \<open>chardet.detect(rawdata)['encoding']\<close>, which may be \<open>None\<close>;
  \<^item> \<open>codec_known\<close>: whether \<open>open\<close> accepts the encoding name (\<open>LookupError\<close> otherwise);
  \<^item> \<open>decode\<close>: what \<open>read()\<close> of a text-mode handle returns for the bytes of the file
    (\<open>None\<close>: \<open>UnicodeDecodeError\<close>); the encoding \<open>None\<close> is the platform's default,
    which is what \<open>open(..., encoding=None)\<close> uses;
  \<^item> \<open>utf8_lines\<close>: the lines that iterating a UTF-8 text handle yields, and the
    exception raised after them when the rest cannot be read;
  \<^item> \<open>encode_utf8\<close>: the bytes a UTF-8 text-mode \<open>write\<close> stores (\<open>None\<close>:
    \<open>UnicodeEncodeError\<close>);
  \<^item> \<open>fake_name\<close>: the value of the \<open>n\<close>-th call of \<open>fake.name()\<close> on a fresh \<open>Faker()\<close>;
  \<^item> \<open>exn_str\<close>: the text of an exception in a log message.
\<close>

record env =
  detect :: "bytes \<Rightarrow> pystr option"
  codec_known :: "pystr \<Rightarrow> bool"
  decode :: "pystr option \<Rightarrow> bytes \<Rightarrow> pystr option"
  utf8_lines :: "bytes \<Rightarrow> pystr list \<times> exn option"
  encode_utf8 :: "pystr \<Rightarrow> bytes option"
  fake_name :: "nat \<Rightarrow> pystr"
  exn_str :: "exn \<Rightarrow> pystr"

section \<open>Logging\<close>

datatype level = DEBUG | INFO | WARNING | ERROR | CRITICAL

fun level_no :: "level \<Rightarrow> nat" where
  "level_no DEBUG = 10"
| "level_no INFO = 20"
| "level_no WARNING = 30"
| "level_no ERROR = 40"
| "level_no CRITICAL = 50"

text \<open>
  The root logger: its level (set by \<open>main\<close> from \<open>--log_level\<close>) and the records it has
  emitted. A call below the level emits nothing.
\<close>

record logger =
  threshold :: level
  records :: "(level \<times> pystr) list"

definition logging_log :: "level \<Rightarrow> pystr \<Rightarrow> logger \<Rightarrow> logger" where
  "logging_log lvl msg lg =
     (if level_no (threshold lg) \<le> level_no lvl
      then lg\<lparr>records := records lg @ [(lvl, msg)]\<rparr> else lg)"

section \<open>The vocabulary loader\<close>

text \<open>
  A Python \<open>dict\<close> keeps its keys in insertion order, and assigning to a key that is
  present keeps its position: an association list with in-place update. The
  replacement \<open>None\<close> marks a term to be randomized.
\<close>

type_synonym vocabulary = "(pystr \<times> pystr option) list"

fun dict_set :: "'k \<Rightarrow> 'v \<Rightarrow> ('k \<times> 'v) list \<Rightarrow> ('k \<times> 'v) list" where
  "dict_set k v [] = [(k, v)]"
| "dict_set k v ((k', v') # d) = (if k' = k then (k, v) # d else (k', v') # dict_set k v d)"

text \<open>The body of the \<open>for line in f\<close> loop (lines 58 to 69).\<close>

definition load_line :: "pystr \<Rightarrow> vocabulary \<times> logger \<Rightarrow> vocabulary \<times> logger" where
  "load_line raw_line st =
     (case st of (vocabulary, lg) \<Rightarrow>
        (let line = str_strip raw_line in
         if line \<noteq> [] then
           (let parts = str_split comma line in
            if length parts = 2 then
              (dict_set (str_strip (parts ! 0)) (Some (str_strip (parts ! 1))) vocabulary, lg)
            else if length parts = 1 then
              (dict_set (str_strip (parts ! 0)) None vocabulary, lg)
            else
              (vocabulary,
               logging_log WARNING
                 (str ''Invalid line in vocabulary file: '' @ line @ str ''. Skipping.'') lg))
         else (vocabulary, lg)))"

text \<open>The \<open>try\<close> block of \<open>load_vocabulary\<close>: \<open>Inl\<close> is a raised exception.\<close>

definition load_vocabulary_try ::
  "env \<Rightarrow> filesys \<Rightarrow> logger \<Rightarrow> pystr \<Rightarrow> (exn + vocabulary) \<times> logger" where
  "load_vocabulary_try ev fs lg vocabulary_file =
     (case open_read fs vocabulary_file of
        Inl e \<Rightarrow> (Inl e, lg)
      | Inr data \<Rightarrow>
          (case utf8_lines ev data of (lines, failure) \<Rightarrow>
             (case fold load_line lines ([], lg) of (vocabulary, lg') \<Rightarrow>
                (case failure of
                   Some e \<Rightarrow> (Inl e, lg')
                 | None \<Rightarrow> (Inr vocabulary, lg')))))"

text \<open>\<open>load_vocabulary\<close> with its two handlers; \<open>None\<close> is Python's \<open>None\<close>.\<close>

definition load_vocabulary ::
  "env \<Rightarrow> filesys \<Rightarrow> logger \<Rightarrow> pystr \<Rightarrow> vocabulary option \<times> logger" where
  "load_vocabulary ev fs lg vocabulary_file =
     (case load_vocabulary_try ev fs lg vocabulary_file of
        (Inr vocabulary, lg') \<Rightarrow> (Some vocabulary, lg')
      | (Inl e, lg') \<Rightarrow>
          (if e = FileNotFoundError then
             (None, logging_log ERROR (str ''Vocabulary file not found: '' @ vocabulary_file) lg')
           else
             (None, logging_log ERROR (str ''Error loading vocabulary file: '' @ exn_str ev e) lg')))"

section \<open>The substitution engine\<close>

text \<open>
  The loop of randomized mode (lines 99 to 104). \<open>for sensitive_term in vocabulary\<close>
  visits the keys in order and \<open>vocabulary[sensitive_term]\<close> is the value stored with the
  key, so the loop runs over the entries. \<open>n\<close> counts the calls of \<open>fake.name()\<close> made so
  far; the result \<open>None\<close> is the early \<open>return 1\<close> at an entry with a replacement.
\<close>

fun randomize_loop :: "(nat \<Rightarrow> pystr) \<Rightarrow> vocabulary \<Rightarrow> nat \<Rightarrow> pystr \<Rightarrow> (pystr \<times> nat) option" where
  "randomize_loop fake [] n text = Some (text, n)"
| "randomize_loop fake ((sensitive_term, replacement) # rest) n text =
     (case replacement of
        None \<Rightarrow> randomize_loop fake rest (Suc n) (str_replace text sensitive_term (fake n))
      | Some r \<Rightarrow> None)"

text \<open>
  The loop of literal mode (lines 107 and 108). \<open>text.replace(sensitive_term, None)\<close>
  raises \<open>TypeError\<close>.
\<close>

fun literal_loop :: "vocabulary \<Rightarrow> pystr \<Rightarrow> exn + pystr" where
  "literal_loop [] text = Inr text"
| "literal_loop ((sensitive_term, replacement_term) # rest) text =
     (case replacement_term of
        None \<Rightarrow> Inl TypeError
      | Some r \<Rightarrow> literal_loop rest (str_replace text sensitive_term r))"

text \<open>\<open>open(path, 'r', encoding=encoding)\<close>: the file is opened, then the codec is looked up.\<close>

definition open_text :: "env \<Rightarrow> filesys \<Rightarrow> pystr \<Rightarrow> pystr option \<Rightarrow> exn + bytes" where
  "open_text ev fs path encoding =
     (case open_read fs path of
        Inl e \<Rightarrow> Inl e
      | Inr data \<Rightarrow>
          (case encoding of
             None \<Rightarrow> Inr data
           | Some name \<Rightarrow> if codec_known ev name then Inr data else Inl LookupError))"

text \<open>Lines 110 to 112: the text is written, the success is logged, 0 is returned.\<close>

definition write_text ::
  "env \<Rightarrow> filesys \<Rightarrow> logger \<Rightarrow> pystr \<Rightarrow> pystr \<Rightarrow> pystr \<Rightarrow> (exn + int) \<times> filesys \<times> logger" where
  "write_text ev fs lg input_file output_file text =
     (case encode_utf8 ev text of
        None \<Rightarrow> (Inl UnicodeEncodeError, fs, lg)
      | Some data \<Rightarrow>
          (Inr 0, write_bytes fs output_file data,
           logging_log INFO
             (str ''Successfully replaced terms in '' @ input_file @ str '' and saved to ''
                @ output_file) lg))"

text \<open>
  Lines 90 to 96: the encoding is detected from the raw bytes, the input is opened as
  text, the output is opened for writing, and the text is read. The output file is
  opened (line 95) before the text is read (line 96), so the text is what the input
  file holds at that moment. The file system is returned as the block leaves it.
\<close>

definition read_document ::
  "env \<Rightarrow> filesys \<Rightarrow> pystr \<Rightarrow> pystr \<Rightarrow> (exn + pystr) \<times> filesys" where
  "read_document ev fs input_file output_file =
     (case open_read fs input_file of
        Inl e \<Rightarrow> (Inl e, fs)
      | Inr rawdata \<Rightarrow>
          (let encoding = detect ev rawdata in
           case open_text ev fs input_file encoding of
             Inl e \<Rightarrow> (Inl e, fs)
           | Inr handle \<Rightarrow>
               (case open_write fs output_file of
                  Inl e \<Rightarrow> (Inl e, fs)
                | Inr fs' \<Rightarrow>
                    (case decode ev encoding (file_bytes fs' input_file) of
                       None \<Rightarrow> (Inl UnicodeDecodeError, fs')
                     | Some text \<Rightarrow> (Inr text, fs')))))"

text \<open>
  The \<open>try\<close> block of \<open>replace_terms\<close>: \<open>Inl\<close> is a raised exception, \<open>Inr\<close> the
  returned status. Nothing is looked up in the vocabulary before both files are open.
\<close>

definition replace_terms_try ::
  "env \<Rightarrow> filesys \<Rightarrow> logger \<Rightarrow> pystr \<Rightarrow> vocabulary \<Rightarrow> pystr \<Rightarrow> bool
     \<Rightarrow> (exn + int) \<times> filesys \<times> logger" where
  "replace_terms_try ev fs lg input_file vocabulary output_file randomize =
     (case read_document ev fs input_file output_file of
        (Inl e, fs') \<Rightarrow> (Inl e, fs', lg)
      | (Inr text, fs') \<Rightarrow>
          if randomize then
            (case randomize_loop (fake_name ev) vocabulary 0 text of
               None \<Rightarrow>
                 (Inr 1, fs',
                  logging_log ERROR
                    (str ''Vocabulary must only contain sensitive terms when using --randomize'')
                    lg)
             | Some (text', n) \<Rightarrow> write_text ev fs' lg input_file output_file text')
          else
            (case literal_loop vocabulary text of
               Inl e \<Rightarrow> (Inl e, fs', lg)
             | Inr text' \<Rightarrow> write_text ev fs' lg input_file output_file text'))"

text \<open>\<open>replace_terms\<close> with its two handlers: the exit status, the file system and the log.\<close>

definition replace_terms ::
  "env \<Rightarrow> filesys \<Rightarrow> logger \<Rightarrow> pystr \<Rightarrow> vocabulary \<Rightarrow> pystr \<Rightarrow> bool
     \<Rightarrow> int \<times> filesys \<times> logger" where
  "replace_terms ev fs lg input_file vocabulary output_file randomize =
     (case replace_terms_try ev fs lg input_file vocabulary output_file randomize of
        (Inr status, fs', lg') \<Rightarrow> (status, fs', lg')
      | (Inl e, fs', lg') \<Rightarrow>
          (if e = FileNotFoundError then
             (1, fs', logging_log ERROR (str ''Input file not found: '' @ input_file) lg')
           else
             (1, fs', logging_log ERROR (str ''Error processing file: '' @ exn_str ev e) lg')))"

section \<open>The command line\<close>

text \<open>The parsed arguments; \<open>--log_level\<close> is one of the five choices.\<close>

record args =
  input_file :: pystr
  vocabulary_file :: pystr
  output_file :: pystr
  randomize :: bool
  log_level :: level

text \<open>\<open>main\<close> after \<open>parse_args\<close>: the exit code, the file system and the log of the run.\<close>

definition main :: "env \<Rightarrow> args \<Rightarrow> filesys \<Rightarrow> int \<times> filesys \<times> logger" where
  "main ev a fs =
     (let lg = \<lparr>threshold = log_level a, records = []\<rparr> in
      if \<not> path_exists fs (input_file a) then
        (1, fs, logging_log ERROR (str ''Input file does not exist: '' @ input_file a) lg)
      else if \<not> path_exists fs (vocabulary_file a) then
        (1, fs, logging_log ERROR (str ''Vocabulary file does not exist: '' @ vocabulary_file a) lg)
      else
        (case load_vocabulary ev fs lg (vocabulary_file a) of
           (None, lg') \<Rightarrow> (1, fs, lg')
         | (Some vocabulary, lg') \<Rightarrow>
             replace_terms ev fs lg' (input_file a) vocabulary (output_file a) (randomize a)))"

section \<open>A small world for running the program\<close>

text \<open>
  An ASCII-only stand-in for the libraries: empty data has no detected encoding (as
  \<open>chardet.detect(b'')\<close> reports), ASCII data is detected as \<open>ascii\<close>, one byte is one
  code point, lines end at the line feed, and the generator yields two fixed names.
\<close>

fun lines_from :: "pystr \<Rightarrow> pystr \<Rightarrow> pystr list" where
  "lines_from cur [] = (if cur = [] then [] else [cur])"
| "lines_from cur (c # cs) =
     (if c = 10 then (cur @ [c]) # lines_from [] cs else lines_from (cur @ [c]) cs)"

definition ascii_decode :: "bytes \<Rightarrow> pystr option" where
  "ascii_decode data = (if list_all (\<lambda>b. b < 128) data then Some (map unat data) else None)"

definition ascii_env :: env where
  "ascii_env =
     \<lparr>detect = (\<lambda>data. if data = [] then None
                        else if list_all (\<lambda>b. b < 128) data then Some (str ''ascii'') else None),
      codec_known = (\<lambda>name. name = str ''ascii''),
      decode = (\<lambda>encoding data. ascii_decode data),
      utf8_lines = (\<lambda>data. case ascii_decode data of
                              None \<Rightarrow> ([], Some UnicodeDecodeError)
                            | Some text \<Rightarrow> (lines_from [] text, None)),
      encode_utf8 = (\<lambda>text. if list_all (\<lambda>c. c < 128) text then Some (map of_nat text) else None),
      fake_name = (\<lambda>n. if n = 0 then str ''Jane Doe'' else str ''John Roe''),
      exn_str = (\<lambda>e. str ''error'')\<rparr>"

text \<open>A file system with the given regular files, readable and writable everywhere.\<close>

definition files_fs :: "(pystr \<times> pystr) list \<Rightarrow> filesys" where
  "files_fs fl =
     \<lparr>nodes = (\<lambda>path. case map_of fl path of None \<Rightarrow> None | Some text \<Rightarrow> Some (File (map of_nat text))),
      read_fault = (\<lambda>path. None),
      write_fault = (\<lambda>path. None)\<rparr>"

definition logger0 :: logger where
  "logger0 = \<lparr>threshold = INFO, records = []\<rparr>"

section \<open>Occurrences of a term\<close>

text \<open>
  The stretches of text between the occurrences that the scan of \<open>replace\<close> finds, that
  is Python's \<open>s.split(old)\<close> for a non-empty \<open>old\<close>, and Python's \<open>sep.join(parts)\<close>.
  They describe what a replacement does to a text.
\<close>

fun pieces_from :: "'a list \<Rightarrow> 'a list \<Rightarrow> 'a list \<Rightarrow> 'a list list" where
  "pieces_from old cur [] = [cur]"
| "pieces_from old cur (c # cs) =
     (if take (length old) (c # cs) = old
      then cur # pieces_from old [] (drop (length old - 1) cs)
      else pieces_from old (cur @ [c]) cs)"

definition pieces :: "'a list \<Rightarrow> 'a list \<Rightarrow> 'a list list" where
  "pieces old s = pieces_from old [] s"

fun join :: "'a list \<Rightarrow> 'a list list \<Rightarrow> 'a list" where
  "join sep [] = []"
| "join sep [p] = p"
| "join sep (p # q # ps) = p @ sep @ join sep (q # ps)"

section \<open>Facts about the string operations\<close>

lemma split_from_length: "length (split_from sep cur s) = Suc (count_list s sep)"
  by (induction s arbitrary: cur) auto

lemma split_from_none: "count_list s sep = 0 \<Longrightarrow> split_from sep cur s = [cur @ s]"
  by (induction s arbitrary: cur) (auto split: if_splits)

lemma split_from_one:
  "count_list s sep = 1 \<Longrightarrow>
   split_from sep cur s = [cur @ takeWhile (\<lambda>c. c \<noteq> sep) s, tl (dropWhile (\<lambda>c. c \<noteq> sep) s)]"
  by (induction s arbitrary: cur) (auto split: if_splits simp: split_from_none)

lemma strip_keeps_head: "\<not> isspace c \<Longrightarrow> str_strip (c # xs) \<noteq> []"
  by (auto simp: str_strip_def dropWhile_eq_Nil_conv)

lemma strip_head: "str_strip s \<noteq> [] \<Longrightarrow> \<not> isspace (hd (str_strip s))"
proof -
  assume ne: "str_strip s \<noteq> []"
  let ?a = "dropWhile isspace s"
  have a_ne: "?a \<noteq> []" using ne by (auto simp: str_strip_def dest: set_dropWhileD)
  then have ha: "\<not> isspace (hd ?a)" by (simp add: hd_dropWhile)
  let ?b = "dropWhile isspace (rev ?a)"
  have "\<exists>ys. rev ?a = ys @ ?b" by (metis takeWhile_dropWhile_id)
  then obtain ys where ys: "rev ?a = ys @ ?b" ..
  then have "?a = rev ?b @ rev ys" by (metis rev_append rev_rev_ident)
  moreover have "rev ?b \<noteq> []" using ne by (simp add: str_strip_def)
  ultimately have "hd ?a = hd (rev ?b)" by (metis hd_append2)
  with ha show ?thesis by (simp add: str_strip_def)
qed

section \<open>Facts about the loader\<close>

lemma dict_set_keys: "fst ` set (dict_set k v d) = insert k (fst ` set d)"
proof (induction d)
  case Nil
  show ?case by simp
next
  case (Cons p d)
  obtain k' v' where p: "p = (k', v')" by (cases p)
  show ?case
  proof (cases "k' = k")
    case True
    then show ?thesis by (simp add: p)
  next
    case False
    then show ?thesis using Cons.IH by (simp add: p insert_commute)
  qed
qed

lemma dict_set_distinct: "distinct (map fst d) \<Longrightarrow> distinct (map fst (dict_set k v d))"
  by (induction d) (auto simp: dict_set_keys)

lemma strip_idem: "str_strip (str_strip s) = str_strip s"
proof -
  let ?b = "dropWhile isspace (rev (dropWhile isspace s))"
  have r: "str_strip s = rev ?b" by (simp add: str_strip_def)
  have front: "dropWhile isspace (rev ?b) = rev ?b"
  proof (cases "rev ?b")
    case Nil
    show ?thesis unfolding Nil by simp
  next
    case (Cons c cs)
    then have "\<not> isspace (hd (str_strip s))" using strip_head [of s] r by simp
    with Cons r show ?thesis by simp
  qed
  have "str_strip (rev ?b) = rev (dropWhile isspace (rev (rev ?b)))"
    using front by (simp add: str_strip_def)
  also have "\<dots> = rev ?b" by (simp add: dropWhile_idem)
  finally show ?thesis using r by simp
qed

lemma load_line_by_commas:
  "load_line raw (voc, lg) =
     (let line = str_strip raw; n = count_list line comma in
      if line = [] then (voc, lg)
      else if n = 1 then
        (dict_set (str_strip (takeWhile (\<lambda>c. c \<noteq> comma) line))
           (Some (str_strip (tl (dropWhile (\<lambda>c. c \<noteq> comma) line)))) voc, lg)
      else if n = 0 then (dict_set line None voc, lg)
      else (voc, logging_log WARNING
                   (str ''Invalid line in vocabulary file: '' @ line @ str ''. Skipping.'') lg))"
proof -
  let ?line = "str_strip raw"
  consider (blank) "?line = []"
    | (one) "?line \<noteq> []" "count_list ?line comma = 1"
    | (none) "?line \<noteq> []" "count_list ?line comma = 0"
    | (many) "?line \<noteq> []" "2 \<le> count_list ?line comma"
    by (cases "count_list ?line comma") (auto simp: Suc_le_eq)
  then show ?thesis
  proof cases
    case blank
    then show ?thesis by (simp add: load_line_def)
  next
    case one
    then show ?thesis
      by (simp add: load_line_def Let_def str_split_def split_from_one)
  next
    case none
    then show ?thesis
      by (simp add: load_line_def Let_def str_split_def split_from_none strip_idem)
  next
    case many
    then show ?thesis
      by (simp add: load_line_def Let_def str_split_def split_from_length)
  qed
qed

lemma load_line_voc_indep: "fst (load_line raw (voc, lg)) = fst (load_line raw (voc, lg'))"
  by (simp add: load_line_by_commas Let_def)

lemma load_lines_voc_indep:
  "fst (fold load_line ls (voc, lg)) = fst (fold load_line ls (voc, lg'))"
proof (induction ls arbitrary: voc lg lg')
  case Nil
  show ?case by simp
next
  case (Cons l ls)
  obtain v1 g1 where s1: "load_line l (voc, lg) = (v1, g1)" by (cases "load_line l (voc, lg)")
  obtain v2 g2 where s2: "load_line l (voc, lg') = (v2, g2)" by (cases "load_line l (voc, lg')")
  have "v1 = v2" using load_line_voc_indep [of l voc lg lg'] s1 s2 by simp
  then show ?case using Cons.IH [of v1 g1 g2] s1 s2 by simp
qed

lemma load_lines_append:
  "fold load_line (xs @ ys) st = fold load_line ys (fold load_line xs st)"
  by simp

lemma takeWhile_no_sep: "count_list s sep = 0 \<Longrightarrow> takeWhile (\<lambda>c. c \<noteq> sep) s = s"
  by (induction s) (auto split: if_splits)

lemma load_line_keys:
  "fst ` set (fst (load_line raw (voc, lg))) =
     fst ` set voc \<union>
     (if str_strip raw \<noteq> [] \<and> count_list (str_strip raw) comma \<le> 1
      then {str_strip (takeWhile (\<lambda>c. c \<noteq> comma) (str_strip raw))} else {})"
proof -
  let ?line = "str_strip raw"
  consider (blank) "?line = []"
    | (one) "?line \<noteq> []" "count_list ?line comma = 1"
    | (none) "?line \<noteq> []" "count_list ?line comma = 0"
    | (many) "?line \<noteq> []" "2 \<le> count_list ?line comma"
    by (cases "count_list ?line comma") (auto simp: Suc_le_eq)
  then show ?thesis
  proof cases
    case blank
    then show ?thesis by (simp add: load_line_by_commas Let_def)
  next
    case one
    then show ?thesis by (simp add: load_line_by_commas Let_def dict_set_keys)
  next
    case none
    then show ?thesis
      by (simp add: load_line_by_commas Let_def dict_set_keys takeWhile_no_sep strip_idem)
  next
    case many
    then show ?thesis by (simp add: load_line_by_commas Let_def)
  qed
qed

lemma key_empty_iff:
  assumes "str_strip raw \<noteq> []"
  shows "str_strip (takeWhile (\<lambda>c. c \<noteq> comma) (str_strip raw)) = []
           \<longleftrightarrow> take 1 (str_strip raw) = [comma]"
proof -
  obtain c cs where line: "str_strip raw = c # cs" using assms by (cases "str_strip raw") auto
  have nsp: "\<not> isspace c" using strip_head [OF assms] line by simp
  show ?thesis
  proof (cases "c = comma")
    case True
    have "str_strip [] = ([]::pystr)" by (simp add: str_strip_def)
    then show ?thesis by (simp add: line True)
  next
    case False
    then show ?thesis using strip_keeps_head [OF nsp] by (simp add: line)
  qed
qed

lemma leading_comma_count: "take 1 s = [c] \<Longrightarrow> 1 \<le> count_list s c"
  by (cases s) auto

lemma load_line_empty_key:
  "[] \<in> fst ` set (fst (load_line raw (voc, lg))) \<longleftrightarrow>
     [] \<in> fst ` set voc \<or>
     (take 1 (str_strip raw) = [comma] \<and> count_list (str_strip raw) comma = 1)"
proof (cases "str_strip raw = []")
  case True
  then show ?thesis by (simp add: load_line_keys)
next
  case False
  show ?thesis
    using key_empty_iff [OF False] leading_comma_count [of "str_strip raw" comma] False
    by (auto simp: load_line_keys)
qed

lemma load_lines_empty_key:
  "[] \<in> fst ` set (fst (fold load_line ls (voc, lg))) \<longleftrightarrow>
     [] \<in> fst ` set voc \<or>
     (\<exists>raw\<in>set ls. take 1 (str_strip raw) = [comma] \<and> count_list (str_strip raw) comma = 1)"
proof (induction ls arbitrary: voc lg)
  case Nil
  show ?case by simp
next
  case (Cons l ls)
  obtain v1 g1 where s1: "load_line l (voc, lg) = (v1, g1)" by (cases "load_line l (voc, lg)")
  have "[] \<in> fst ` set v1 \<longleftrightarrow>
          [] \<in> fst ` set voc \<or>
          (take 1 (str_strip l) = [comma] \<and> count_list (str_strip l) comma = 1)"
    using load_line_empty_key [of l voc lg] s1 by simp
  then show ?case using Cons.IH [of v1 g1] s1 by auto
qed

lemmas run_defs = load_vocabulary_def load_vocabulary_try_def open_read_def files_fs_def
  ascii_env_def ascii_decode_def str_def load_line_def str_strip_def isspace_def str_split_def
  comma_def logging_log_def logger0_def Let_def

lemma load_vocabulary_ok:
  assumes "open_read fs path = Inr data" and "utf8_lines ev data = (lines, None)"
  shows "load_vocabulary ev fs lg path =
           (Some (fst (fold load_line lines ([], lg))), snd (fold load_line lines ([], lg)))"
  using assms
  by (simp add: load_vocabulary_def load_vocabulary_try_def split: prod.splits)

section \<open>Claims about the vocabulary loader\<close>

text \<open>
  Claim C6, as amended. The claim says that no key of a loaded vocabulary is the empty
  string. The loader does not check the term: the line \<open>,x\<close> has two parts, the first
  of them empty, and is stored under the empty key.
\<close>

theorem nonempty_key_counterexample:
  "fst (load_vocabulary ascii_env (files_fs [(str ''v.csv'', str '',x\<newline>'')]) logger0
          (str ''v.csv''))
     = Some [([], Some (str ''x''))]"
  by (simp add: run_defs)

text \<open>
  Claim C6, amended: when the file can be read, the empty string is a key of the loaded
  vocabulary exactly if some line, once trimmed, starts with a comma and has no other
  comma; every other line that is loaded gives a non-empty key.
\<close>

theorem empty_term_iff_leading_comma:
  assumes "open_read fs path = Inr data" and "utf8_lines ev data = (lines, None)"
  shows "\<exists>voc lg'. load_vocabulary ev fs lg path = (Some voc, lg') \<and>
           ([] \<in> fst ` set voc \<longleftrightarrow>
              (\<exists>raw\<in>set lines. take 1 (str_strip raw) = [comma] \<and>
                 count_list (str_strip raw) comma = 1))"
  using load_vocabulary_ok [OF assms, of lg] load_lines_empty_key [of lines "[]" lg]
  by simp

theorem empty_term_iff_leading_comma_witness:
  "\<exists>voc lg'. load_vocabulary ascii_env (files_fs [(str ''v.csv'', str ''a,b\<newline>c\<newline>'')]) logger0
              (str ''v.csv'') = (Some voc, lg') \<and> [] \<notin> fst ` set voc"
proof -
  have o: "open_read (files_fs [(str ''v.csv'', str ''a,b\<newline>c\<newline>'')]) (str ''v.csv'')
             = Inr (map of_nat (str ''a,b\<newline>c\<newline>''))"
    by (simp add: open_read_def files_fs_def str_def)
  have u: "utf8_lines ascii_env (map of_nat (str ''a,b\<newline>c\<newline>''))
             = ([str ''a,b\<newline>'', str ''c\<newline>''], None)"
    by (simp add: ascii_env_def ascii_decode_def str_def)
  show ?thesis
    using empty_term_iff_leading_comma [OF o u, of logger0]
    by (simp add: str_def str_strip_def isspace_def comma_def)
qed

text \<open>
  Claim C5, as stated. The claim has the loader split a line at its first comma only,
  so that \<open>a,b,c\<close> would give the term \<open>a\<close> with the replacement \<open>b,c\<close>. The loader
  splits at every comma and skips the line: of the file with the lines \<open>a,b,c\<close> and
  \<open>x,y\<close> only the second is loaded.
\<close>

theorem split_on_first_comma_counterexample:
  "fst (load_vocabulary ascii_env
          (files_fs [(str ''v.csv'', str ''a,b,c\<newline>x,y\<newline>'')]) logger0 (str ''v.csv''))
     = Some [(str ''x'', Some (str ''y''))]
   \<and> fst (load_vocabulary ascii_env
          (files_fs [(str ''v.csv'', str ''a,b,c\<newline>x,y\<newline>'')]) logger0 (str ''v.csv''))
     \<noteq> Some [(str ''a'', Some (str ''b,c'')), (str ''x'', Some (str ''y''))]"
  by (simp add: run_defs)

text \<open>
  Claim C5, amended: a trimmed line is split at every comma, into one part more than it
  has commas; a line with two or more commas (more than two parts, such as \<open>a,b,c\<close>)
  is skipped with a warning and leaves the vocabulary as it is, and the lines before
  and after it load as if it were not there.
\<close>

theorem malformed_line_skipped:
  assumes "2 \<le> count_list (str_strip raw) comma"
  shows "length (str_split comma (str_strip raw)) = Suc (count_list (str_strip raw) comma)
       \<and> load_line raw (voc, lg) =
           (voc, logging_log WARNING
                   (str ''Invalid line in vocabulary file: '' @ str_strip raw @ str ''. Skipping.'') lg)
       \<and> fst (fold load_line (before @ raw # after) ([], lg)) =
           fst (fold load_line (before @ after) ([], lg))"
proof -
  have ne: "str_strip raw \<noteq> []" using assms by auto
  have skip: "load_line raw (v, g) =
      (v, logging_log WARNING
            (str ''Invalid line in vocabulary file: '' @ str_strip raw @ str ''. Skipping.'') g)"
    for v g
    using assms ne by (simp add: load_line_by_commas Let_def)
  obtain v1 g1 where b: "fold load_line before ([], lg) = (v1, g1)"
    by (cases "fold load_line before ([], lg)")
  have "fst (fold load_line (before @ raw # after) ([], lg)) =
        fst (fold load_line after (load_line raw (v1, g1)))"
    by (simp add: b)
  also have "\<dots> = fst (fold load_line after (v1, g1))"
    unfolding skip by (rule load_lines_voc_indep)
  also have "\<dots> = fst (fold load_line (before @ after) ([], lg))"
    by (simp add: b)
  finally show ?thesis
    using skip [of voc lg] by (simp add: str_split_def split_from_length)
qed

theorem malformed_line_skipped_witness:
  "load_line (str ''a,b,c\<newline>'') ([], logger0) =
     ([], logging_log WARNING (str ''Invalid line in vocabulary file: a,b,c. Skipping.'') logger0)
   \<and> fst (fold load_line [str ''x,y\<newline>'', str ''a,b,c\<newline>'', str ''z\<newline>''] ([], logger0)) =
       [(str ''x'', Some (str ''y'')), (str ''z'', None)]"
proof -
  have s: "str_strip (str ''a,b,c\<newline>'') = str ''a,b,c''"
    by (simp add: str_def str_strip_def isspace_def)
  have h: "2 \<le> count_list (str_strip (str ''a,b,c\<newline>'')) comma"
    unfolding s by (simp add: str_def comma_def)
  have r: "fst (fold load_line ([str ''x,y\<newline>''] @ [str ''z\<newline>'']) ([], logger0)) =
             [(str ''x'', Some (str ''y'')), (str ''z'', None)]"
    by (simp add: run_defs)
  show ?thesis
    using malformed_line_skipped [OF h, of "[]" logger0 "[str ''x,y\<newline>'']" "[str ''z\<newline>'']"] r
    by (simp add: str_def str_strip_def isspace_def)
qed

text \<open>
  Claim C10. \<open>load_vocabulary\<close> never raises: whatever the \<open>try\<close> block does, it
  returns the mapping when the block completes and \<open>None\<close> when the block raises. It
  returns \<open>None\<close> when the file cannot be opened and also when reading fails after some
  lines have been loaded, so no partial mapping is returned; otherwise it returns the
  mapping built from all the lines.
\<close>

theorem load_vocabulary_never_raises:
  "((\<exists>vocabulary lg'. load_vocabulary_try ev fs lg path = (Inr vocabulary, lg') \<and>
        load_vocabulary ev fs lg path = (Some vocabulary, lg'))
    \<or> (\<exists>e lg'. load_vocabulary_try ev fs lg path = (Inl e, lg') \<and>
        fst (load_vocabulary ev fs lg path) = None))
   \<and> fst (load_vocabulary ev fs lg path) =
       (case open_read fs path of
          Inl e \<Rightarrow> None
        | Inr data \<Rightarrow>
            (case utf8_lines ev data of
               (lines, Some e) \<Rightarrow> None
             | (lines, None) \<Rightarrow> Some (fst (fold load_line lines ([], lg)))))"
proof -
  obtain r lg1 where t: "load_vocabulary_try ev fs lg path = (r, lg1)"
    by (cases "load_vocabulary_try ev fs lg path")
  have first: "(\<exists>vocabulary lg'. load_vocabulary_try ev fs lg path = (Inr vocabulary, lg') \<and>
        load_vocabulary ev fs lg path = (Some vocabulary, lg'))
    \<or> (\<exists>e lg'. load_vocabulary_try ev fs lg path = (Inl e, lg') \<and>
        fst (load_vocabulary ev fs lg path) = None)"
    by (cases r) (simp_all add: t load_vocabulary_def)
  have second: "fst (load_vocabulary ev fs lg path) =
       (case open_read fs path of
          Inl e \<Rightarrow> None
        | Inr data \<Rightarrow>
            (case utf8_lines ev data of
               (lines, Some e) \<Rightarrow> None
             | (lines, None) \<Rightarrow> Some (fst (fold load_line lines ([], lg)))))"
    by (simp add: load_vocabulary_def load_vocabulary_try_def
          split: sum.splits prod.splits option.splits)
  from first second show ?thesis by (rule conjI)
qed

section \<open>Facts about replacement\<close>

lemma pieces_from_nonempty: "pieces_from old cur s \<noteq> []"
  by (induction old cur s rule: pieces_from.induct) auto

lemma join_Cons: "ps \<noteq> [] \<Longrightarrow> join sep (p # ps) = p @ sep @ join sep ps"
  by (cases ps) auto

lemma match_unfold:
  assumes "old \<noteq> []" and "take (length old) (c # cs) = old"
  shows "old @ drop (length old - 1) cs = c # cs"
proof -
  have "drop (length old) (c # cs) = drop (length old - 1) cs"
    using assms(1) by (cases "length old") auto
  then show ?thesis using append_take_drop_id [of "length old" "c # cs"] assms(2) by simp
qed

lemma join_pieces_from:
  "old \<noteq> [] \<Longrightarrow> join old (pieces_from old cur s) = cur @ s"
proof (induction old cur s rule: pieces_from.induct)
  case (1 old cur)
  show ?case by simp
next
  case (2 old cur c cs)
  show ?case
  proof (cases "take (length old) (c # cs) = old")
    case True
    have "join old (pieces_from old cur (c # cs)) =
            cur @ old @ join old (pieces_from old [] (drop (length old - 1) cs))"
      using True by (simp add: join_Cons pieces_from_nonempty)
    also have "\<dots> = cur @ old @ drop (length old - 1) cs"
      using 2(1) [OF True "2.prems"] by simp
    finally show ?thesis using match_unfold [OF "2.prems" True] by simp
  next
    case False
    then show ?thesis using 2(2) [OF False "2.prems"] by simp
  qed
qed

lemma join_pieces_from_replace:
  "join new (pieces_from old cur s) = cur @ replace_scan old new s"
proof (induction old cur s rule: pieces_from.induct)
  case (1 old cur)
  show ?case by simp
next
  case (2 old cur c cs)
  show ?case
  proof (cases "take (length old) (c # cs) = old")
    case True
    then show ?thesis using 2(1) [OF True] by (simp add: join_Cons pieces_from_nonempty)
  next
    case False
    then show ?thesis using 2(2) [OF False] by simp
  qed
qed

lemma short_not_sublist: "length ys < length xs \<Longrightarrow> \<not> sublist xs ys"
  using sublist_length_le [of xs ys] by auto

lemma suffix_same_length: "suffix xs (ys @ zs) \<Longrightarrow> length xs = length zs \<Longrightarrow> xs = zs"
  by (auto simp: suffix_def append_eq_append_conv)

lemma no_match_step:
  assumes ne: "old \<noteq> []"
    and inv: "\<not> sublist old (cur @ take (length old - 1) (c # cs))"
    and nomatch: "take (length old) (c # cs) \<noteq> old"
  shows "\<not> sublist old ((cur @ [c]) @ take (length old - 1) cs)"
proof (cases "length (c # cs) < length old")
  case True
  then have "take (length old - 1) (c # cs) = c # cs" and "take (length old - 1) cs = cs"
    by auto
  then show ?thesis using inv by simp
next
  case False
  let ?n = "length old"
  have n: "0 < ?n" using ne by simp
  have lt: "?n - 1 < length (c # cs)" using False n by simp
  have full: "length (take ?n (c # cs)) = ?n" using False by simp
  have suc: "Suc (?n - 1) = ?n" using n by simp
  have "take ?n (c # cs) = take (?n - 1) (c # cs) @ [(c # cs) ! (?n - 1)]"
    using take_Suc_conv_app_nth [OF lt] unfolding suc .
  moreover have "(cur @ [c]) @ take (?n - 1) cs = cur @ take ?n (c # cs)"
    using n by (cases ?n) auto
  ultimately have eq: "(cur @ [c]) @ take (?n - 1) cs =
      (cur @ take (?n - 1) (c # cs)) @ [(c # cs) ! (?n - 1)]"
    by simp
  show ?thesis
  proof
    assume "sublist old ((cur @ [c]) @ take (?n - 1) cs)"
    then have "suffix old ((cur @ take (?n - 1) (c # cs)) @ [(c # cs) ! (?n - 1)])"
      using inv unfolding eq by (simp only: sublist_snoc) blast
    then have "suffix old (cur @ take ?n (c # cs))"
      using eq \<open>(cur @ [c]) @ take (?n - 1) cs = cur @ take ?n (c # cs)\<close> by simp
    then have "old = take ?n (c # cs)"
      using full by (intro suffix_same_length) auto
    with nomatch show False by simp
  qed
qed

lemma pieces_from_free:
  "old \<noteq> [] \<Longrightarrow> \<not> sublist old (cur @ take (length old - 1) s) \<Longrightarrow>
   \<forall>p\<in>set (pieces_from old cur s). \<not> sublist old p"
proof (induction old cur s rule: pieces_from.induct)
  case (1 old cur)
  then show ?case by simp
next
  case (2 old cur c cs)
  show ?case
  proof (cases "take (length old) (c # cs) = old")
    case True
    have "\<not> sublist old cur"
    proof
      assume "sublist old cur"
      then have "sublist old (cur @ take (length old - 1) (c # cs))"
        by (meson sublist_order.order_trans sublist_append_rightI)
      with "2.prems"(2) show False by simp
    qed
    moreover have "\<not> sublist old ([] @ take (length old - 1) (drop (length old - 1) cs))"
      using "2.prems"(1) by (intro short_not_sublist) (cases old, auto)
    then have "\<forall>p\<in>set (pieces_from old [] (drop (length old - 1) cs)). \<not> sublist old p"
      using 2(1) [OF True "2.prems"(1)] by blast
    ultimately show ?thesis using True by simp
  next
    case False
    have "\<not> sublist old ((cur @ [c]) @ take (length old - 1) cs)"
      using no_match_step [OF "2.prems"(1) "2.prems"(2) False] .
    then show ?thesis using 2(2) [OF False "2.prems"(1)] False by simp
  qed
qed

lemma pieces_free:
  assumes "old \<noteq> []"
  shows "\<forall>p\<in>set (pieces old s). \<not> sublist old p"
proof -
  have "length old - 1 < length old" using assms by (cases old) simp_all
  then have "length ([] @ take (length old - 1) s) < length old"
    by (simp add: min_less_iff_disj)
  then have "\<not> sublist old ([] @ take (length old - 1) s)"
    by (rule short_not_sublist)
  then show ?thesis
    unfolding pieces_def by (rule pieces_from_free [OF assms])
qed

lemma replace_by_pieces:
  "old \<noteq> [] \<Longrightarrow> str_replace s old new = join new (pieces old s)"
  by (simp add: str_replace_def pieces_def join_pieces_from_replace)

lemma join_pieces: "old \<noteq> [] \<Longrightarrow> join old (pieces old s) = s"
  by (simp add: pieces_def join_pieces_from)

section \<open>Facts about the substitution engine\<close>

lemma literal_loop_all:
  "literal_loop (map (\<lambda>(t, r). (t, Some r)) entries) doc =
     Inr (fold (\<lambda>(t, r) s. str_replace s t r) entries doc)"
  by (induction entries arbitrary: doc) (auto split: prod.splits)

lemma literal_loop_marker:
  "(t, None) \<in> set voc \<Longrightarrow> literal_loop voc doc = Inl TypeError"
proof (induction voc arbitrary: doc)
  case Nil
  then show ?case by simp
next
  case (Cons e voc)
  obtain k v where e: "e = (k, v)" by (cases e)
  show ?case
  proof (cases v)
    case None
    then show ?thesis by (simp add: e)
  next
    case (Some r)
    then have "(t, None) \<in> set voc" using Cons.prems e by auto
    then show ?thesis using Cons.IH Some by (simp add: e)
  qed
qed

lemma randomize_loop_literal:
  "(t, Some r) \<in> set voc \<Longrightarrow> randomize_loop fake voc n doc = None"
proof (induction voc arbitrary: n doc)
  case Nil
  then show ?case by simp
next
  case (Cons e voc)
  obtain k v where e: "e = (k, v)" by (cases e)
  show ?case
  proof (cases v)
    case None
    then have "(t, Some r) \<in> set voc" using Cons.prems e by auto
    then show ?thesis using Cons.IH None by (simp add: e)
  next
    case (Some r')
    then show ?thesis by (simp add: e)
  qed
qed

lemma randomize_loop_all:
  "randomize_loop fake (map (\<lambda>t. (t, None)) terms) n doc =
     Some (fold (\<lambda>(t, i) s. str_replace s t (fake i)) (zip terms [n ..< n + length terms]) doc,
           n + length terms)"
proof (induction terms arbitrary: n doc)
  case Nil
  show ?case by simp
next
  case (Cons t terms)
  have "[n ..< n + length (t # terms)] = n # [Suc n ..< Suc n + length terms]"
    by (simp add: upt_rec)
  then show ?case using Cons.IH [of "Suc n"] by simp
qed

lemma randomize_loop_count:
  "randomize_loop fake voc n doc = Some (doc', n') \<Longrightarrow>
   n' = n + length voc \<and> voc = map (\<lambda>t. (t, None)) (map fst voc)"
proof (induction voc arbitrary: n doc)
  case Nil
  then show ?case by simp
next
  case (Cons e voc)
  obtain k v where e: "e = (k, v)" by (cases e)
  show ?case
  proof (cases v)
    case None
    then have "randomize_loop fake voc (Suc n) (str_replace doc k (fake n)) = Some (doc', n')"
      using Cons.prems e by simp
    from Cons.IH [OF this] show ?thesis using None e by simp
  next
    case (Some r)
    then show ?thesis using Cons.prems e by simp
  qed
qed

lemma read_document_fs:
  "snd (read_document ev fs inp out) =
     (case open_read fs inp of
        Inl e \<Rightarrow> fs
      | Inr raw \<Rightarrow>
          (case open_text ev fs inp (detect ev raw) of
             Inl e \<Rightarrow> fs
           | Inr h \<Rightarrow> (case open_write fs out of Inl e \<Rightarrow> fs | Inr fs' \<Rightarrow> fs')))"
  by (simp add: read_document_def Let_def split: sum.splits option.splits)

lemma open_write_effect:
  "open_write fs out = Inr fs' \<Longrightarrow>
   nodes fs' out = Some (File []) \<and> (\<forall>p. p \<noteq> out \<longrightarrow> nodes fs' p = nodes fs p)"
  by (auto simp: open_write_def split: option.splits node.splits)

lemma replace_terms_raise:
  "replace_terms_try ev fs lg inp voc out rnd = (Inl e, fs', lg') \<Longrightarrow>
   fst (replace_terms ev fs lg inp voc out rnd) = 1 \<and>
   fst (snd (replace_terms ev fs lg inp voc out rnd)) = fs'"
  by (simp add: replace_terms_def)

lemma replace_terms_return:
  "replace_terms_try ev fs lg inp voc out rnd = (Inr status, fs', lg') \<Longrightarrow>
   replace_terms ev fs lg inp voc out rnd = (status, fs', lg')"
  by (simp add: replace_terms_def)

lemma write_text_cases:
  "write_text ev fs lg inp out text =
     (case encode_utf8 ev text of
        None \<Rightarrow> (Inl UnicodeEncodeError, fs, lg)
      | Some data \<Rightarrow>
          (Inr 0, write_bytes fs out data,
           logging_log INFO
             (str ''Successfully replaced terms in '' @ inp @ str '' and saved to '' @ out) lg))"
  by (simp add: write_text_def)

lemma try_literal:
  "replace_terms_try ev fs lg inp voc out False =
     (case read_document ev fs inp out of
        (Inl e, fs') \<Rightarrow> (Inl e, fs', lg)
      | (Inr text, fs') \<Rightarrow>
          (case literal_loop voc text of
             Inl e \<Rightarrow> (Inl e, fs', lg)
           | Inr text' \<Rightarrow> write_text ev fs' lg inp out text'))"
  by (simp add: replace_terms_try_def split: prod.splits sum.splits)

lemma try_randomize:
  "replace_terms_try ev fs lg inp voc out True =
     (case read_document ev fs inp out of
        (Inl e, fs') \<Rightarrow> (Inl e, fs', lg)
      | (Inr text, fs') \<Rightarrow>
          (case randomize_loop (fake_name ev) voc 0 text of
             None \<Rightarrow>
               (Inr 1, fs',
                logging_log ERROR
                  (str ''Vocabulary must only contain sensitive terms when using --randomize'') lg)
           | Some (text', n) \<Rightarrow> write_text ev fs' lg inp out text'))"
  by (simp add: replace_terms_try_def split: prod.splits sum.splits)

lemma literal_ok:
  assumes "read_document ev fs inp out = (Inr doc, fs')"
    and "literal_loop voc doc = Inr doc'"
    and "encode_utf8 ev doc' = Some data"
  shows "replace_terms ev fs lg inp voc out False =
           (0, write_bytes fs' out data,
            logging_log INFO
              (str ''Successfully replaced terms in '' @ inp @ str '' and saved to '' @ out) lg)"
  using assms by (simp add: replace_terms_def try_literal write_text_cases)

lemma randomize_ok:
  assumes "read_document ev fs inp out = (Inr doc, fs')"
    and "randomize_loop (fake_name ev) voc 0 doc = Some (doc', n)"
    and "encode_utf8 ev doc' = Some data"
  shows "replace_terms ev fs lg inp voc out True =
           (0, write_bytes fs' out data,
            logging_log INFO
              (str ''Successfully replaced terms in '' @ inp @ str '' and saved to '' @ out) lg)"
  using assms by (simp add: replace_terms_def try_randomize write_text_cases)

lemma literal_marker_fails:
  assumes "(t, None) \<in> set voc"
  shows "fst (replace_terms ev fs lg inp voc out False) = 1 \<and>
         fst (snd (replace_terms ev fs lg inp voc out False)) = snd (read_document ev fs inp out)"
proof -
  obtain r fs' where rd: "read_document ev fs inp out = (r, fs')"
    by (cases "read_document ev fs inp out")
  show ?thesis
  proof (cases r)
    case (Inl e)
    then have "replace_terms_try ev fs lg inp voc out False = (Inl e, fs', lg)"
      by (simp add: try_literal rd)
    from replace_terms_raise [OF this] show ?thesis by (simp add: rd)
  next
    case (Inr doc)
    then have "replace_terms_try ev fs lg inp voc out False = (Inl TypeError, fs', lg)"
      by (simp add: try_literal rd literal_loop_marker [OF assms])
    from replace_terms_raise [OF this] show ?thesis by (simp add: rd)
  qed
qed

lemma randomize_literal_fails:
  assumes "(t, Some r) \<in> set voc"
  shows "fst (replace_terms ev fs lg inp voc out True) = 1 \<and>
         fst (snd (replace_terms ev fs lg inp voc out True)) = snd (read_document ev fs inp out)"
proof -
  obtain res fs' where rd: "read_document ev fs inp out = (res, fs')"
    by (cases "read_document ev fs inp out")
  show ?thesis
  proof (cases res)
    case (Inl e)
    then have "replace_terms_try ev fs lg inp voc out True = (Inl e, fs', lg)"
      by (simp add: try_randomize rd)
    from replace_terms_raise [OF this] show ?thesis by (simp add: rd)
  next
    case (Inr doc)
    then have "replace_terms_try ev fs lg inp voc out True =
        (Inr 1, fs',
         logging_log ERROR
           (str ''Vocabulary must only contain sensitive terms when using --randomize'') lg)"
      by (simp add: try_randomize rd randomize_loop_literal [OF assms])
    from replace_terms_return [OF this] show ?thesis by (simp add: rd)
  qed
qed

lemmas world_defs = read_document_def open_read_def open_text_def open_write_def file_bytes_def
  files_fs_def ascii_env_def ascii_decode_def str_def Let_def

lemma file_bytes_write [simp]: "file_bytes (write_bytes fs path d) path = d"
  by (simp add: file_bytes_def write_bytes_def)

lemma replace_terms_status:
  "fst (replace_terms ev fs lg inp voc out rnd) = 0 \<or> fst (replace_terms ev fs lg inp voc out rnd) = 1"
proof -
  obtain r fs' lg' where t: "replace_terms_try ev fs lg inp voc out rnd = (r, fs', lg')"
    by (cases "replace_terms_try ev fs lg inp voc out rnd")
  show ?thesis
  proof (cases r)
    case (Inl e)
    then show ?thesis using replace_terms_raise [of ev fs lg inp voc out rnd e fs' lg'] t by simp
  next
    case (Inr status)
    have "status = 0 \<or> status = 1"
      using t Inr
      by (cases rnd)
         (auto simp: try_literal try_randomize write_text_cases
               split: prod.splits sum.splits option.splits)
    then show ?thesis using replace_terms_return [of ev fs lg inp voc out rnd status fs' lg'] t Inr
      by auto
  qed
qed

lemma replace_terms_success:
  assumes "fst (replace_terms ev fs lg inp voc out rnd) = 0"
  shows "\<exists>doc fs' doc' data.
           read_document ev fs inp out = (Inr doc, fs') \<and>
           (if rnd then (\<exists>n. randomize_loop (fake_name ev) voc 0 doc = Some (doc', n))
            else literal_loop voc doc = Inr doc') \<and>
           encode_utf8 ev doc' = Some data \<and>
           fst (snd (replace_terms ev fs lg inp voc out rnd)) = write_bytes fs' out data"
proof -
  obtain r fs' where rd: "read_document ev fs inp out = (r, fs')"
    by (cases "read_document ev fs inp out")
  show ?thesis
  proof (cases r)
    case (Inl e)
    then have "replace_terms_try ev fs lg inp voc out rnd = (Inl e, fs', lg)"
      by (simp add: replace_terms_try_def rd)
    from replace_terms_raise [OF this] assms show ?thesis by simp
  next
    case (Inr doc)
    show ?thesis
    proof (cases rnd)
      case True
      show ?thesis
      proof (cases "randomize_loop (fake_name ev) voc 0 doc")
        case None
        then have "replace_terms ev fs lg inp voc out rnd =
          (1, fs', logging_log ERROR
             (str ''Vocabulary must only contain sensitive terms when using --randomize'') lg)"
          using True Inr rd by (simp add: replace_terms_def try_randomize)
        with assms show ?thesis by simp
      next
        case (Some res)
        obtain doc' n where res: "res = (doc', n)" by (cases res)
        show ?thesis
        proof (cases "encode_utf8 ev doc'")
          case None
          then have "replace_terms_try ev fs lg inp voc out rnd = (Inl UnicodeEncodeError, fs', lg)"
            using True Inr rd Some res by (simp add: try_randomize write_text_cases)
          from replace_terms_raise [OF this] assms show ?thesis by simp
        next
          case (Some data)
          have "replace_terms ev fs lg inp voc out True =
               (0, write_bytes fs' out data,
                logging_log INFO
                  (str ''Successfully replaced terms in '' @ inp @ str '' and saved to '' @ out) lg)"
            using \<open>randomize_loop (fake_name ev) voc 0 doc = Some res\<close> res Some Inr rd
            by (intro randomize_ok) auto
          then show ?thesis
            using True Inr rd \<open>randomize_loop (fake_name ev) voc 0 doc = Some res\<close> res Some
            by auto
        qed
      qed
    next
      case False
      show ?thesis
      proof (cases "literal_loop voc doc")
        case (Inl e)
        then have "replace_terms_try ev fs lg inp voc out rnd = (Inl e, fs', lg)"
          using False Inr rd by (simp add: try_literal)
        from replace_terms_raise [OF this] assms show ?thesis by simp
      next
        case doc': (Inr doc')
        show ?thesis
        proof (cases "encode_utf8 ev doc'")
          case None
          then have "replace_terms_try ev fs lg inp voc out rnd = (Inl UnicodeEncodeError, fs', lg)"
            using False Inr rd doc' by (simp add: try_literal write_text_cases)
          from replace_terms_raise [OF this] assms show ?thesis by simp
        next
          case (Some data)
          have "replace_terms ev fs lg inp voc out False =
               (0, write_bytes fs' out data,
                logging_log INFO
                  (str ''Successfully replaced terms in '' @ inp @ str '' and saved to '' @ out) lg)"
            using doc' Some Inr rd by (intro literal_ok) auto
          then show ?thesis using False Inr rd doc' Some by auto
        qed
      qed
    qed
  qed
qed

section \<open>Claims about the substitution engine\<close>

text \<open>
  Claim C9. In literal mode an empty vocabulary leaves the text as it is: the substitution
  loop returns its input, a run whose input can be read, decoded and encoded writes exactly
  the decoded text to the output file and returns 0, and every run that returns 0 has done so.
\<close>

theorem empty_vocabulary_is_identity:
  "literal_loop [] doc = Inr doc \<and>
   (read_document ev fs inp out = (Inr doc, fs') \<and> encode_utf8 ev doc = Some data \<longrightarrow>
      replace_terms ev fs lg inp [] out False =
        (0, write_bytes fs' out data,
         logging_log INFO
           (str ''Successfully replaced terms in '' @ inp @ str '' and saved to '' @ out) lg)) \<and>
   (fst (replace_terms ev fs lg inp [] out False) = 0 \<longrightarrow>
      (\<exists>d fs'' bs. read_document ev fs inp out = (Inr d, fs'') \<and> encode_utf8 ev d = Some bs \<and>
         fst (snd (replace_terms ev fs lg inp [] out False)) = write_bytes fs'' out bs))"
proof (intro conjI impI)
  show "literal_loop [] doc = Inr doc" by simp
next
  assume "read_document ev fs inp out = (Inr doc, fs') \<and> encode_utf8 ev doc = Some data"
  then show "replace_terms ev fs lg inp [] out False =
        (0, write_bytes fs' out data,
         logging_log INFO
           (str ''Successfully replaced terms in '' @ inp @ str '' and saved to '' @ out) lg)"
    by (intro literal_ok [where doc = doc and doc' = doc]) auto
next
  assume "fst (replace_terms ev fs lg inp [] out False) = 0"
  from replace_terms_success [OF this]
  show "\<exists>d fs'' bs. read_document ev fs inp out = (Inr d, fs'') \<and> encode_utf8 ev d = Some bs \<and>
         fst (snd (replace_terms ev fs lg inp [] out False)) = write_bytes fs'' out bs"
    by auto
qed

theorem empty_vocabulary_is_identity_witness:
  "fst (replace_terms ascii_env (files_fs [(str ''in.txt'', str ''Hello, John Smith.'')]) logger0
          (str ''in.txt'') [] (str ''out.txt'') False) = 0 \<and>
   file_bytes (fst (snd (replace_terms ascii_env
          (files_fs [(str ''in.txt'', str ''Hello, John Smith.'')]) logger0
          (str ''in.txt'') [] (str ''out.txt'') False))) (str ''out.txt'') =
     map of_nat (str ''Hello, John Smith.'')"
proof -
  let ?fs = "files_fs [(str ''in.txt'', str ''Hello, John Smith.'')]"
  have rd: "read_document ascii_env ?fs (str ''in.txt'') (str ''out.txt'') =
      (Inr (str ''Hello, John Smith.''),
       ?fs\<lparr>nodes := (nodes ?fs)(str ''out.txt'' := Some (File []))\<rparr>)"
    by (simp add: world_defs)
  have en: "encode_utf8 ascii_env (str ''Hello, John Smith.'') =
      Some (map of_nat (str ''Hello, John Smith.''))"
    by (simp add: ascii_env_def str_def)
  from empty_vocabulary_is_identity [where ev = ascii_env and fs = ?fs
      and inp = "str ''in.txt''" and out = "str ''out.txt''" and doc = "str ''Hello, John Smith.''"
      and fs' = "?fs\<lparr>nodes := (nodes ?fs)(str ''out.txt'' := Some (File []))\<rparr>"
      and data = "map of_nat (str ''Hello, John Smith.'')" and lg = logger0] rd en
  show ?thesis by simp
qed

end
